theory Spec2Isabelle
  imports Complex_Main
begin

section \<open>The interval rate limiter of node-rate-limiter\<close>

text \<open>
  The class \<open>RateLimiter\<close> (the source file with \<open>setLimit\<close> and \<open>timeSum\<close>) is embedded
  method by method. A method that mutates \<open>this\<close> takes the object and returns the
  updated one; a method that returns a value returns it paired with the object.

  Numbers: token counts, limits, timestamps and the interval are integers (\<open>Date.now()\<close>
  returns whole milliseconds, the counters are only ever incremented by the counts).
  The bucket's \<open>content\<close> and the latency sum \<open>timeSum\<close> are rational numbers, since
  the drip adds fractions of tokens and \<open>addTime\<close> accepts any number. The rounding of
  IEEE doubles is not part of the model.

  Clock: every \<open>Date.now()\<close> of the source is a separate reading, passed as an argument
  of the method that performs it. \<open>accept\<close> can read the clock three times: its own
  \<open>now\<close>, the reading inside \<open>getStat()\<close> when the callback is fed, and the reading of
  the bucket's drip.

  Callback: \<open>statCallback\<close> is an optional function; it receives the stat object and
  acts on the state \<open>'w\<close> of the rest of the program, which \<open>accept\<close> threads through.
  The callback is taken not to call back into the limiter.

  The repository holds a second copy of the class, \<open>lib/rate-limiter.js\<close>. Its
  \<open>accept\<close>, \<open>addTime\<close> and \<open>getStat\<close> are the same statements with the latency sum
  named \<open>_timeSum\<close> and one more assignment in the rollover branch, which clears a flag
  \<open>_goingDown\<close> that only its \<open>down\<close> method reads; its \<open>setTokensPerInterval\<close> has
  the body of \<open>setLimit\<close>.
\<close>

subsection \<open>TokenBucket\<close>

record TokenBucket =
  bucketSize :: int
  tokensPerInterval :: int
  interval :: int
  content :: rat
  lastDrip :: int

datatype error = InvalidArgument

datatype interval_arg = Millis int | Unit string

text \<open>
  Modelled from the spec: the file \<open>token-bucket.js\<close> required by the limiter is missing,
  so the resolution of the interval argument follows the specification's data model:
  a millisecond count is taken as it is, the units second, minute, hour and day stand
  for 1000, 60000, 3600000 and 86400000, and any other string is an InvalidArgument.
\<close>

fun resolve_interval :: "interval_arg \<Rightarrow> error + int" where
  "resolve_interval (Millis n) = Inr n"
| "resolve_interval (Unit u) =
     (if u = ''second'' then Inr 1000
      else if u = ''minute'' then Inr 60000
      else if u = ''hour'' then Inr 3600000
      else if u = ''day'' then Inr 86400000
      else Inl InvalidArgument)"

text \<open>
  Modelled from the spec: the constructor of the missing \<open>TokenBucket\<close> class. It
  resolves the interval, starts with \<open>content = 0\<close> and \<open>lastDrip = now\<close>.
\<close>

definition TokenBucket_constructor ::
  "int \<Rightarrow> int \<Rightarrow> interval_arg \<Rightarrow> int \<Rightarrow> error + TokenBucket" where
  "TokenBucket_constructor bSize tpi iv now =
     (case resolve_interval iv of
        Inl e \<Rightarrow> Inl e
      | Inr ms \<Rightarrow> Inr \<lparr>bucketSize = bSize, tokensPerInterval = tpi, interval = ms,
                       content = 0, lastDrip = now\<rparr>)"

text \<open>
  Modelled from the spec: the lazy replenishment of the missing \<open>TokenBucket\<close> class.
  With \<open>elapsed = now - lastDrip\<close> it adds \<open>elapsed / interval * tokensPerInterval\<close>
  tokens, clamps the content at \<open>bucketSize\<close> and sets \<open>lastDrip\<close> to \<open>now\<close>. For
  \<open>interval = 0\<close> the source's quotient is an IEEE infinity or NaN, which the rational
  model does not have: results that depend on the drip are stated for \<open>0 < interval\<close>.
\<close>

definition drip :: "int \<Rightarrow> TokenBucket \<Rightarrow> TokenBucket" where
  "drip now b =
     (let elapsed = now - lastDrip b;
          tokensToAdd = of_int elapsed / of_int (interval b) * of_int (tokensPerInterval b)
      in b\<lparr>content := min (of_int (bucketSize b)) (content b + tokensToAdd),
           lastDrip := now\<rparr>)"

text \<open>
  Modelled from the spec: \<open>accept\<close> of the missing \<open>TokenBucket\<close> class. A count above
  \<open>bucketSize\<close> is refused with no mutation; otherwise the bucket drips, and the count
  is debited when the content covers it.
\<close>

definition TokenBucket_accept :: "int \<Rightarrow> int \<Rightarrow> TokenBucket \<Rightarrow> bool \<times> TokenBucket" where
  "TokenBucket_accept count now b =
     (if count > bucketSize b then (False, b)
      else let b1 = drip now b
           in if content b1 \<ge> of_int count
              then (True, b1\<lparr>content := content b1 - of_int count\<rparr>)
              else (False, b1))"

subsection \<open>RateLimiter\<close>

text \<open>The object literal that \<open>getStat\<close> returns and the callback receives.\<close>

record stat =
  stat_accepted :: int
  stat_incoming :: int
  stat_averageTime :: int
  stat_limit :: int

record 'w RateLimiter =
  tokenBucket :: TokenBucket
  curIntervalStart :: int
  tokensThisInterval :: int
  incomingThisInterval :: int
  incoming :: int
  accepted :: int
  averageTime :: int
  statCallback :: "(stat \<Rightarrow> 'w \<Rightarrow> 'w) option"
  timeSum :: rat

text \<open>
  The constructor builds the bucket with \<open>tokensPerInterval\<close> as both its size and its
  rate, fills it, and reads the clock for \<open>curIntervalStart\<close>. \<open>nowBucket\<close> is the
  reading of the bucket's constructor, \<open>now\<close> the limiter's own.
\<close>

definition RateLimiter_constructor ::
  "int \<Rightarrow> interval_arg \<Rightarrow> (stat \<Rightarrow> 'w \<Rightarrow> 'w) option \<Rightarrow> int \<Rightarrow> int \<Rightarrow> error + 'w RateLimiter" where
  "RateLimiter_constructor tpi iv cb nowBucket now =
     (case TokenBucket_constructor tpi tpi iv nowBucket of
        Inl e \<Rightarrow> Inl e
      | Inr b \<Rightarrow>
          Inr \<lparr>tokenBucket = b\<lparr>content := of_int tpi\<rparr>,
               curIntervalStart = now,
               tokensThisInterval = 0,
               incomingThisInterval = 0,
               incoming = 0,
               accepted = 0,
               averageTime = 0,
               statCallback = cb,
               timeSum = 0\<rparr>)"

definition addTime :: "rat \<Rightarrow> 'w RateLimiter \<Rightarrow> 'w RateLimiter" where
  "addTime time s = s\<lparr>timeSum := timeSum s + time\<rparr>"

definition getStat :: "int \<Rightarrow> 'w RateLimiter \<Rightarrow> stat \<times> 'w RateLimiter" where
  "getStat now s =
     (if now - curIntervalStart s \<ge> interval (tokenBucket s)
      then (\<lparr>stat_accepted = 0, stat_incoming = 0, stat_averageTime = 0,
             stat_limit = tokensPerInterval (tokenBucket s)\<rparr>, s)
      else (\<lparr>stat_accepted = accepted s,
             stat_incoming = incoming s,
             stat_averageTime = averageTime s,
             stat_limit = tokensPerInterval (tokenBucket s)\<rparr>, s))"

text \<open>
  \<open>this.tokenBucket.bucketSize = this.tokenBucket.tokensPerInterval = v\<close>: the chained
  assignment stores the rate first, then the size.
\<close>

definition setLimit :: "int \<Rightarrow> 'w RateLimiter \<Rightarrow> 'w RateLimiter" where
  "setLimit v s =
     (let b1 = (tokenBucket s)\<lparr>tokensPerInterval := v\<rparr>;
          b2 = b1\<lparr>bucketSize := v\<rparr>
      in s\<lparr>tokenBucket := b2\<rparr>)"

text \<open>
  The body of the rollover branch of \<open>accept\<close>, one assignment after the other in the
  order of the source: \<open>curIntervalStart\<close> is overwritten first, and the three
  conditional expressions that follow read the overwritten field. \<open>nowStat\<close> is the
  clock reading of the \<open>getStat()\<close> call that builds the callback's argument.
\<close>

definition rollover :: "int \<Rightarrow> int \<Rightarrow> 'w RateLimiter \<times> 'w \<Rightarrow> 'w RateLimiter \<times> 'w" where
  "rollover now nowStat sw =
     (let (s, w) = sw;
          s1 = s\<lparr>curIntervalStart := now\<rparr>;
          s2 = s1\<lparr>accepted :=
                 (if now - curIntervalStart s1 \<ge> interval (tokenBucket s1) * 2
                  then 0
                  else tokensThisInterval s1)\<rparr>;
          s3 = s2\<lparr>incoming :=
                 (if now - curIntervalStart s2 \<ge> interval (tokenBucket s2) * 2
                  then 0
                  else incomingThisInterval s2)\<rparr>;
          s4 = s3\<lparr>averageTime :=
                 (if now - curIntervalStart s3 \<ge> interval (tokenBucket s3) * 2
                  then 0
                  else (if tokensThisInterval s3 \<noteq> 0
                        then \<lfloor>timeSum s3 / of_int (tokensThisInterval s3)\<rfloor>
                        else 0))\<rparr>;
          s5 = s4\<lparr>tokensThisInterval := 0\<rparr>;
          s6 = s5\<lparr>incomingThisInterval := 0\<rparr>;
          s7 = s6\<lparr>timeSum := 0\<rparr>
      in case statCallback s7 of
           None \<Rightarrow> (s7, w)
         | Some fn \<Rightarrow> (let (st, s8) = getStat nowStat s7 in (s8, fn st w)))"

text \<open>
  \<open>accept count\<close>, with its three clock readings: \<open>now\<close> (its own), \<open>nowStat\<close> (inside
  \<open>getStat()\<close>, read only on a rollover with a callback) and \<open>nowDrip\<close> (inside the
  bucket, read only when the call reaches the bucket).
\<close>

definition accept ::
  "int \<Rightarrow> int \<Rightarrow> int \<Rightarrow> int \<Rightarrow> 'w RateLimiter \<times> 'w \<Rightarrow> bool \<times> 'w RateLimiter \<times> 'w" where
  "accept count now nowStat nowDrip sw =
     (let (s, w) = sw;
          s1 = s\<lparr>incomingThisInterval := incomingThisInterval s + 1\<rparr>
      in if count > bucketSize (tokenBucket s1) then (False, s1, w)
         else
           let (s2, w2) =
                 (if now - curIntervalStart s1 \<ge> interval (tokenBucket s1)
                  then rollover now nowStat (s1, w)
                  else (s1, w))
           in if count > tokensPerInterval (tokenBucket s2) - tokensThisInterval s2
              then (False, s2, w2)
              else
                let (r, b) = TokenBucket_accept count nowDrip (tokenBucket s2);
                    s3 = s2\<lparr>tokenBucket := b\<rparr>
                in (r, (if r then s3\<lparr>tokensThisInterval := tokensThisInterval s3 + count\<rparr>
                        else s3), w2))"

subsection \<open>Calls in sequence\<close>

text \<open>
  A caller issues calls one after the other on one limiter. Each call carries the clock
  readings it will make. \<open>step\<close> performs one call, \<open>run\<close> a list of them, and
  \<open>results\<close> collects what the \<open>accept\<close> calls of the list return.
\<close>

datatype call =
    Accept int int int int
  | AddTime rat
  | GetStat int
  | SetLimit int

fun step :: "call \<Rightarrow> 'w RateLimiter \<times> 'w \<Rightarrow> 'w RateLimiter \<times> 'w" where
  "step (Accept count now nowStat nowDrip) sw = snd (accept count now nowStat nowDrip sw)"
| "step (AddTime time) sw = (addTime time (fst sw), snd sw)"
| "step (GetStat now) sw = (snd (getStat now (fst sw)), snd sw)"
| "step (SetLimit v) sw = (setLimit v (fst sw), snd sw)"

fun run :: "call list \<Rightarrow> 'w RateLimiter \<times> 'w \<Rightarrow> 'w RateLimiter \<times> 'w" where
  "run [] sw = sw"
| "run (c # cs) sw = run cs (step c sw)"

fun results :: "call list \<Rightarrow> 'w RateLimiter \<times> 'w \<Rightarrow> bool list" where
  "results [] sw = []"
| "results (Accept count now nowStat nowDrip # cs) sw =
     fst (accept count now nowStat nowDrip sw)
       # results cs (step (Accept count now nowStat nowDrip) sw)"
| "results (c # cs) sw = results cs (step c sw)"

text \<open>A session: construct a limiter, then run the calls on it.\<close>

definition session ::
  "int \<Rightarrow> interval_arg \<Rightarrow> (stat \<Rightarrow> 'w \<Rightarrow> 'w) option \<Rightarrow> int \<Rightarrow> int \<Rightarrow> 'w \<Rightarrow> call list
     \<Rightarrow> error + 'w RateLimiter \<times> 'w" where
  "session tpi iv cb nowBucket now w cs =
     (case RateLimiter_constructor tpi iv cb nowBucket now of
        Inl e \<Rightarrow> Inl e
      | Inr s \<Rightarrow> Inr (run cs (s, w)))"

definition session_results ::
  "int \<Rightarrow> interval_arg \<Rightarrow> (stat \<Rightarrow> 'w \<Rightarrow> 'w) option \<Rightarrow> int \<Rightarrow> int \<Rightarrow> 'w \<Rightarrow> call list
     \<Rightarrow> error + bool list" where
  "session_results tpi iv cb nowBucket now w cs =
     (case RateLimiter_constructor tpi iv cb nowBucket now of
        Inl e \<Rightarrow> Inl e
      | Inr s \<Rightarrow> Inr (results cs (s, w)))"

text \<open>A callback that appends every stat object it receives to a log.\<close>

definition logger :: "(stat \<Rightarrow> stat list \<Rightarrow> stat list) option" where
  "logger = Some (\<lambda>st log. log @ [st])"

subsection \<open>The window cap and the tokens granted in a window\<close>

definition cap_ok :: "'w RateLimiter \<Rightarrow> bool" where
  "cap_ok s \<longleftrightarrow> tokensThisInterval s \<le> tokensPerInterval (tokenBucket s)"

text \<open>
  A call starts a new window when it runs the rollover branch of \<open>accept\<close>: its count
  passes the bucket-size check and the interval has elapsed.
\<close>

fun starts_window :: "call \<Rightarrow> 'w RateLimiter \<Rightarrow> bool" where
  "starts_window (Accept count now nowStat nowDrip) s =
     (count \<le> bucketSize (tokenBucket s)
      \<and> now - curIntervalStart s \<ge> interval (tokenBucket s))"
| "starts_window c s = False"

fun granted :: "call \<Rightarrow> 'w RateLimiter \<times> 'w \<Rightarrow> int" where
  "granted (Accept count now nowStat nowDrip) sw =
     (if fst (accept count now nowStat nowDrip sw) then count else 0)"
| "granted c sw = 0"

text \<open>
  \<open>window_total cs sw g\<close>: the sum of the counts of the accepted calls of the window that
  is open after the calls \<open>cs\<close>, when \<open>g\<close> was that sum before them.
\<close>

fun window_total :: "call list \<Rightarrow> 'w RateLimiter \<times> 'w \<Rightarrow> int \<Rightarrow> int" where
  "window_total [] sw g = g"
| "window_total (c # cs) sw g =
     window_total cs (step c sw) ((if starts_window c (fst sw) then 0 else g) + granted c sw)"

text \<open>
  \<open>setLimit\<close> can lower the limit below what the open window has already granted.
  \<open>lowered cs sw b\<close> follows the calls \<open>cs\<close> and tells whether that is the situation
  after them, when \<open>b\<close> told it before them: a \<open>setLimit v\<close> raises the flag when
  \<open>v\<close> is below the tokens granted so far in the window and clears it otherwise; an
  \<open>accept\<close> clears it when it starts a new window or is granted; every other call
  keeps it.
\<close>

fun lowered_step :: "call \<Rightarrow> 'w RateLimiter \<times> 'w \<Rightarrow> bool \<Rightarrow> bool" where
  "lowered_step (SetLimit v) sw b = (v < tokensThisInterval (fst sw))"
| "lowered_step (Accept count now nowStat nowDrip) sw b =
     (b \<and> \<not> starts_window (Accept count now nowStat nowDrip) (fst sw)
        \<and> \<not> fst (accept count now nowStat nowDrip sw))"
| "lowered_step c sw b = b"

fun lowered :: "call list \<Rightarrow> 'w RateLimiter \<times> 'w \<Rightarrow> bool \<Rightarrow> bool" where
  "lowered [] sw b = b"
| "lowered (c # cs) sw b = lowered cs (step c sw) (lowered_step c sw b)"

fun limit_nonneg :: "call \<Rightarrow> bool" where
  "limit_nonneg (SetLimit v) = (0 \<le> v)"
| "limit_nonneg c = True"

fun is_setLimit :: "call \<Rightarrow> bool" where
  "is_setLimit (SetLimit v) = True"
| "is_setLimit c = False"

subsection \<open>Limiter states used as examples\<close>

text \<open>
  \<open>fresh_limiter\<close> is what \<open>new RateLimiter(2, 1000, logger)\<close> builds at time 0.
  \<open>busy_limiter\<close> is that limiter after \<open>accept(1)\<close> at time 0 and \<open>addTime(30)\<close>.
\<close>

definition fresh_limiter :: "stat list RateLimiter" where
  "fresh_limiter =
     \<lparr>tokenBucket = \<lparr>bucketSize = 2, tokensPerInterval = 2, interval = 1000,
                      content = 2, lastDrip = 0\<rparr>,
      curIntervalStart = 0, tokensThisInterval = 0, incomingThisInterval = 0,
      incoming = 0, accepted = 0, averageTime = 0, statCallback = logger,
      timeSum = 0\<rparr>"

definition busy_limiter :: "stat list RateLimiter" where
  "busy_limiter =
     \<lparr>tokenBucket = \<lparr>bucketSize = 2, tokensPerInterval = 2, interval = 1000,
                      content = 1, lastDrip = 0\<rparr>,
      curIntervalStart = 0, tokensThisInterval = 1, incomingThisInterval = 1,
      incoming = 0, accepted = 0, averageTime = 0, statCallback = logger,
      timeSum = 30\<rparr>"

text \<open>
  \<open>zero_interval_limiter\<close> is \<open>new RateLimiter(2, 0, logger)\<close> built at time 0, after
  \<open>accept(1)\<close> at time 5 and \<open>addTime(30)\<close>.
\<close>

definition zero_interval_limiter :: "stat list RateLimiter" where
  "zero_interval_limiter =
     \<lparr>tokenBucket = \<lparr>bucketSize = 2, tokensPerInterval = 2, interval = 0,
                      content = 1, lastDrip = 5\<rparr>,
      curIntervalStart = 5, tokensThisInterval = 1, incomingThisInterval = 0,
      incoming = 0, accepted = 0, averageTime = 0, statCallback = logger,
      timeSum = 30\<rparr>"

section \<open>Auxiliary facts\<close>

subsection \<open>Construction\<close>

lemma constructor_ok:
  "resolve_interval iv = Inr ms \<Longrightarrow>
   RateLimiter_constructor tpi iv cb nowBucket now =
     Inr \<lparr>tokenBucket = \<lparr>bucketSize = tpi, tokensPerInterval = tpi, interval = ms,
                           content = of_int tpi, lastDrip = nowBucket\<rparr>,
          curIntervalStart = now, tokensThisInterval = 0, incomingThisInterval = 0,
          incoming = 0, accepted = 0, averageTime = 0, statCallback = cb, timeSum = 0\<rparr>"
  by (simp add: RateLimiter_constructor_def TokenBucket_constructor_def)

subsection \<open>The bucket\<close>

lemma drip_frame:
  "bucketSize (drip now b) = bucketSize b
   \<and> tokensPerInterval (drip now b) = tokensPerInterval b
   \<and> interval (drip now b) = interval b
   \<and> lastDrip (drip now b) = now"
  by (simp add: drip_def Let_def)

lemma drip_lower:
  assumes "0 \<le> tokensPerInterval b" "0 < interval b" "lastDrip b \<le> now"
  shows "min (of_int (bucketSize b)) (content b) \<le> content (drip now b)"
proof -
  have "0 \<le> (of_int (now - lastDrip b) :: rat) / of_int (interval b)
              * of_int (tokensPerInterval b)"
    using assms by simp
  then show ?thesis by (simp add: drip_def Let_def min_def)
qed

lemma drip_full:
  assumes "0 \<le> tokensPerInterval b" "0 < interval b" "lastDrip b \<le> now"
    and "content b = of_int (bucketSize b)"
  shows "content (drip now b) = of_int (bucketSize b)"
proof -
  have "0 \<le> (of_int (now - lastDrip b) :: rat) / of_int (interval b)
              * of_int (tokensPerInterval b)"
    using assms by simp
  then show ?thesis using assms by (simp add: drip_def Let_def min_def)
qed

lemma TokenBucket_accept_frame:
  "bucketSize (snd (TokenBucket_accept count now b)) = bucketSize b
   \<and> tokensPerInterval (snd (TokenBucket_accept count now b)) = tokensPerInterval b
   \<and> interval (snd (TokenBucket_accept count now b)) = interval b"
  by (simp add: TokenBucket_accept_def drip_def Let_def)

subsection \<open>The rollover branch\<close>

lemma rollover_bucket: "tokenBucket (fst (rollover now nowStat (s, w))) = tokenBucket s"
  by (simp add: rollover_def getStat_def Let_def split: option.splits)

lemma rollover_tokens: "tokensThisInterval (fst (rollover now nowStat (s, w))) = 0"
  by (simp add: rollover_def getStat_def Let_def split: option.splits)

lemma rollover_start: "curIntervalStart (fst (rollover now nowStat (s, w))) = now"
  by (simp add: rollover_def getStat_def Let_def split: option.splits)

subsection \<open>The paths of accept\<close>

lemma accept_oversize:
  "bucketSize (tokenBucket s) < count \<Longrightarrow>
   accept count now nowStat nowDrip (s, w) =
     (False, s\<lparr>incomingThisInterval := incomingThisInterval s + 1\<rparr>, w)"
  by (simp add: accept_def)

lemma accept_over_cap:
  assumes "count \<le> bucketSize (tokenBucket s)"
    and "now - curIntervalStart s < interval (tokenBucket s)"
    and "tokensPerInterval (tokenBucket s) - tokensThisInterval s < count"
  shows "accept count now nowStat nowDrip (s, w) =
    (False, s\<lparr>incomingThisInterval := incomingThisInterval s + 1\<rparr>, w)"
  using assms by (simp add: accept_def Let_def)

lemma accept_granted:
  assumes "count \<le> bucketSize (tokenBucket s)"
    and "now - curIntervalStart s < interval (tokenBucket s)"
    and "count \<le> tokensPerInterval (tokenBucket s) - tokensThisInterval s"
    and "of_int count \<le> content (drip nowDrip (tokenBucket s))"
  shows "accept count now nowStat nowDrip (s, w) =
    (True,
     s\<lparr>incomingThisInterval := incomingThisInterval s + 1,
       tokenBucket := (drip nowDrip (tokenBucket s))
          \<lparr>content := content (drip nowDrip (tokenBucket s)) - of_int count\<rparr>,
       tokensThisInterval := tokensThisInterval s + count\<rparr>, w)"
  using assms by (simp add: accept_def TokenBucket_accept_def Let_def)

lemma accept_cap:
  assumes "accept count now nowStat nowDrip (s, w) = (r, s', w')"
  shows "tokensPerInterval (tokenBucket s') = tokensPerInterval (tokenBucket s)"
    and "bucketSize (tokenBucket s') = bucketSize (tokenBucket s)"
    and "interval (tokenBucket s') = interval (tokenBucket s)"
    and "r \<Longrightarrow> tokensThisInterval s' \<le> tokensPerInterval (tokenBucket s)"
    and "cap_ok s \<Longrightarrow> 0 \<le> tokensPerInterval (tokenBucket s) \<Longrightarrow> cap_ok s'"
  using assms TokenBucket_accept_frame[of count nowDrip "tokenBucket s"]
    rollover_bucket[of now nowStat "s\<lparr>incomingThisInterval := incomingThisInterval s + 1\<rparr>" w]
    rollover_tokens[of now nowStat "s\<lparr>incomingThisInterval := incomingThisInterval s + 1\<rparr>" w]
  by (auto simp: accept_def cap_ok_def Let_def split: if_splits prod.splits)

lemma accept_tokens:
  assumes "accept count now nowStat nowDrip (s, w) = (r, s', w')"
  shows "tokensThisInterval s' =
    (if starts_window (Accept count now nowStat nowDrip) s then 0 else tokensThisInterval s)
      + (if r then count else 0)"
  using assms
    rollover_tokens[of now nowStat "s\<lparr>incomingThisInterval := incomingThisInterval s + 1\<rparr>" w]
  by (auto simp: accept_def Let_def split: if_splits prod.splits)

subsection \<open>Sequences of calls\<close>

lemma step_tokens:
  "tokensThisInterval (fst (step c sw)) =
     (if starts_window c (fst sw) then 0 else tokensThisInterval (fst sw)) + granted c sw"
proof (cases c)
  case (Accept count now nowStat nowDrip)
  obtain r s' w' where a: "accept count now nowStat nowDrip (fst sw, snd sw) = (r, s', w')"
    using prod_cases3 by blast
  show ?thesis using accept_tokens[OF a] a Accept by simp
qed (simp_all add: addTime_def getStat_def setLimit_def Let_def)

lemma step_lowered:
  assumes "0 \<le> tokensPerInterval (tokenBucket (fst sw))"
    and "cap_ok (fst sw) = (\<not> b)"
    and "limit_nonneg c"
  shows "0 \<le> tokensPerInterval (tokenBucket (fst (step c sw)))
    \<and> cap_ok (fst (step c sw)) = (\<not> lowered_step c sw b)"
proof (cases c)
  case (Accept count now nowStat nowDrip)
  obtain r s' w' where a: "accept count now nowStat nowDrip (fst sw, snd sw) = (r, s', w')"
    using prod_cases3 by blast
  show ?thesis
    using accept_cap(1,4)[OF a] accept_tokens[OF a] a Accept assms(1,2)
    by (auto simp: cap_ok_def split: if_splits)
next
  case (SetLimit v)
  then show ?thesis using assms by (auto simp: cap_ok_def setLimit_def Let_def)
qed (use assms in \<open>simp_all add: cap_ok_def addTime_def getStat_def\<close>)

lemma run_lowered:
  "0 \<le> tokensPerInterval (tokenBucket (fst sw)) \<Longrightarrow> cap_ok (fst sw) = (\<not> b) \<Longrightarrow>
   list_all limit_nonneg cs \<Longrightarrow>
   0 \<le> tokensPerInterval (tokenBucket (fst (run cs sw)))
   \<and> cap_ok (fst (run cs sw)) = (\<not> lowered cs sw b)"
proof (induction cs arbitrary: sw b)
  case Nil
  then show ?case by simp
next
  case (Cons c cs)
  have "0 \<le> tokensPerInterval (tokenBucket (fst (step c sw)))
    \<and> cap_ok (fst (step c sw)) = (\<not> lowered_step c sw b)"
    using Cons.prems by (intro step_lowered) simp_all
  then show ?case using Cons.IH[of "step c sw" "lowered_step c sw b"] Cons.prems(3) by simp
qed

lemma run_window_total:
  "g = tokensThisInterval (fst sw) \<Longrightarrow>
   window_total cs sw g = tokensThisInterval (fst (run cs sw))"
proof (induction cs arbitrary: sw g)
  case Nil
  then show ?case by simp
next
  case (Cons c cs)
  show ?case using Cons.IH[of _ "step c sw"] Cons.prems step_tokens[of c sw] by simp
qed

lemma step_limit:
  assumes "\<not> is_setLimit c"
  shows "tokensPerInterval (tokenBucket (fst (step c sw)))
           = tokensPerInterval (tokenBucket (fst sw))"
proof (cases c)
  case (Accept count now nowStat nowDrip)
  obtain r s' w' where a: "accept count now nowStat nowDrip (fst sw, snd sw) = (r, s', w')"
    using prod_cases3 by blast
  show ?thesis using accept_cap(1)[OF a] a Accept by simp
qed (use assms in \<open>simp_all add: addTime_def getStat_def\<close>)

lemma run_limit:
  "list_all (\<lambda>c. \<not> is_setLimit c) cs \<Longrightarrow>
   tokensPerInterval (tokenBucket (fst (run cs sw)))
     = tokensPerInterval (tokenBucket (fst sw))"
  by (induction cs arbitrary: sw) (simp_all add: step_limit)

section \<open>The claims\<close>

subsection \<open>C1: rollover after a long idle stretch\<close>

text \<open>
  C1 says that when more than two interval durations pass without a call, the rollover
  of the next \<open>accept\<close> stores \<open>accepted = 0\<close>, \<open>incoming = 0\<close>, \<open>averageTime = 0\<close>.
  The code evaluated: a limiter with 2 tokens per 1000 ms and a logging callback is
  built at time 0, \<open>accept(1)\<close> is granted at time 0, \<open>addTime(30)\<close> follows, and the
  next \<open>accept(1)\<close> comes at time 5000, five intervals later. The rollover stores
  \<open>accepted = 1\<close>, \<open>incoming = 2\<close>, \<open>averageTime = 30\<close> and hands the same numbers to
  the callback: \<open>curIntervalStart\<close> is set to \<open>now\<close> before the three idle tests
  \<open>now - curIntervalStart \<ge> interval * 2\<close> are evaluated, so each test compares 0 with
  twice the interval.
\<close>

theorem idle_rollover_stores_last_counts:
  "session 2 (Millis 1000) logger 0 0 []
     [Accept 1 0 0 0, AddTime 30, Accept 1 5000 5000 5000]
   = Inr (\<lparr>tokenBucket = \<lparr>bucketSize = 2, tokensPerInterval = 2, interval = 1000,
                            content = 1, lastDrip = 5000\<rparr>,
            curIntervalStart = 5000, tokensThisInterval = 1, incomingThisInterval = 0,
            incoming = 2, accepted = 1, averageTime = 30, statCallback = logger,
            timeSum = 0\<rparr>,
           [\<lparr>stat_accepted = 1, stat_incoming = 2, stat_averageTime = 30,
             stat_limit = 2\<rparr>])"
  by (simp add: session_def RateLimiter_constructor_def TokenBucket_constructor_def
      accept_def rollover_def getStat_def TokenBucket_accept_def drip_def addTime_def
      logger_def Let_def)

subsection \<open>C2: the window cap\<close>

text \<open>
  C2 says that \<open>tokensThisInterval \<le> tokensPerInterval\<close> holds at every observation
  point, also across \<open>setLimit\<close> calls. It fails when \<open>setLimit\<close> lowers the limit below
  what the open window has already granted: a limiter with 5 tokens per 1000 ms grants
  \<open>accept(3)\<close> at time 0, then \<open>setLimit(2)\<close> leaves \<open>tokensThisInterval = 3\<close> above
  \<open>tokensPerInterval = 2\<close>.
\<close>

theorem setLimit_below_granted_breaks_cap:
  "session_results 5 (Millis 1000) None 0 0 () [Accept 3 0 0 0, SetLimit 2] = Inr [True]
   \<and> map_sum id (tokensThisInterval \<circ> fst)
       (session 5 (Millis 1000) None 0 0 () [Accept 3 0 0 0, SetLimit 2]) = Inr 3
   \<and> map_sum id (tokensPerInterval \<circ> tokenBucket \<circ> fst)
       (session 5 (Millis 1000) None 0 0 () [Accept 3 0 0 0, SetLimit 2]) = Inr 2
   \<and> map_sum id (cap_ok \<circ> fst)
       (session 5 (Millis 1000) None 0 0 () [Accept 3 0 0 0, SetLimit 2]) = Inr False"
  by (simp add: session_def session_results_def RateLimiter_constructor_def
      TokenBucket_constructor_def accept_def TokenBucket_accept_def drip_def setLimit_def
      cap_ok_def Let_def)

text \<open>
  C2, amended: on a limiter that has been constructed, after any number \<open>n\<close> of the
  calls of any list of \<open>accept\<close>, \<open>addTime\<close>, \<open>getStat\<close> and \<open>setLimit\<close> calls,
  the sum of the counts of the accepted calls of the open window is
  \<open>tokensThisInterval\<close>, and an \<open>accept\<close> that returns true leaves
  \<open>tokensThisInterval \<le> tokensPerInterval\<close>. When the limit given to the constructor
  and to every \<open>setLimit\<close> is not negative, \<open>tokensThisInterval \<le> tokensPerInterval\<close>
  holds at the observation point except exactly in this situation: a \<open>setLimit v\<close> with
  \<open>v\<close> below the tokens granted so far in the window has been issued, and since then
  no \<open>accept\<close> has been granted or has started a new window and no \<open>setLimit\<close> has
  put the limit back to at least the tokens granted.
\<close>

theorem window_cap_invariant:
  assumes "RateLimiter_constructor tpi iv cb nowBucket now0 = Inr s0"
  shows "window_total (take n cs) (s0, w) 0
           = tokensThisInterval (fst (run (take n cs) (s0, w)))
    \<and> (fst (accept count now nowStat nowDrip (run (take n cs) (s0, w))) \<longrightarrow>
         tokensThisInterval
             (fst (snd (accept count now nowStat nowDrip (run (take n cs) (s0, w)))))
           \<le> tokensPerInterval (tokenBucket
               (fst (snd (accept count now nowStat nowDrip (run (take n cs) (s0, w)))))))
    \<and> (0 \<le> tpi \<and> list_all limit_nonneg (take n cs) \<longrightarrow>
         (tokensThisInterval (fst (run (take n cs) (s0, w)))
            \<le> tokensPerInterval (tokenBucket (fst (run (take n cs) (s0, w)))))
          = (\<not> lowered (take n cs) (s0, w) False))
    \<and> (0 \<le> tpi \<and> list_all limit_nonneg (take n cs)
         \<and> starts_window (Accept count now nowStat nowDrip) (fst (run (take n cs) (s0, w)))
       \<longrightarrow>
         tokensThisInterval
             (fst (snd (accept count now nowStat nowDrip (run (take n cs) (s0, w)))))
           \<le> tokensPerInterval (tokenBucket
               (fst (snd (accept count now nowStat nowDrip (run (take n cs) (s0, w)))))))"
proof -
  from assms have s0: "tokensThisInterval s0 = 0" "tokensPerInterval (tokenBucket s0) = tpi"
    by (auto simp: RateLimiter_constructor_def TokenBucket_constructor_def split: sum.splits)
  have total: "window_total (take n cs) (s0, w) 0
           = tokensThisInterval (fst (run (take n cs) (s0, w)))"
    by (rule run_window_total) (simp add: s0)
  have grant: "tokensThisInterval
             (fst (snd (accept count now nowStat nowDrip (run (take n cs) (s0, w)))))
           \<le> tokensPerInterval (tokenBucket
               (fst (snd (accept count now nowStat nowDrip (run (take n cs) (s0, w))))))"
    if r: "fst (accept count now nowStat nowDrip (run (take n cs) (s0, w)))"
  proof -
    obtain s1 w1 where sw: "run (take n cs) (s0, w) = (s1, w1)"
      by (cases "run (take n cs) (s0, w)")
    obtain r' s' w' where a: "accept count now nowStat nowDrip (s1, w1) = (r', s', w')"
      using prod_cases3 by blast
    have "r'" using r sw a by simp
    then show ?thesis using accept_cap(1,4)[OF a] sw a by simp
  qed
  have cap: "(tokensThisInterval (fst (run (take n cs) (s0, w)))
            \<le> tokensPerInterval (tokenBucket (fst (run (take n cs) (s0, w)))))
          = (\<not> lowered (take n cs) (s0, w) False)"
    if "0 \<le> tpi" and "list_all limit_nonneg (take n cs)"
    using run_lowered[of "(s0, w)" False "take n cs"] that s0 by (simp add: cap_ok_def)
  have fresh: "tokensThisInterval
             (fst (snd (accept count now nowStat nowDrip (run (take n cs) (s0, w)))))
           \<le> tokensPerInterval (tokenBucket
               (fst (snd (accept count now nowStat nowDrip (run (take n cs) (s0, w))))))"
    if "0 \<le> tpi" and "list_all limit_nonneg (take n cs)"
      and st: "starts_window (Accept count now nowStat nowDrip)
                 (fst (run (take n cs) (s0, w)))"
  proof -
    obtain s1 w1 where sw: "run (take n cs) (s0, w) = (s1, w1)"
      by (cases "run (take n cs) (s0, w)")
    obtain r' s' w' where a: "accept count now nowStat nowDrip (s1, w1) = (r', s', w')"
      using prod_cases3 by blast
    have "0 \<le> tokensPerInterval (tokenBucket s1)"
      using run_lowered[of "(s0, w)" False "take n cs"] that(1,2) s0 sw
      by (simp add: cap_ok_def)
    then show ?thesis
      using accept_cap(1,4)[OF a] accept_tokens[OF a] st sw a by (cases r') simp_all
  qed
  show ?thesis using total grant cap fresh by blast
qed

theorem window_cap_invariant_witness:
  "RateLimiter_constructor 2 (Millis 1000) logger 0 0 = Inr fresh_limiter
   \<and> (0::int) \<le> 2
   \<and> list_all limit_nonneg
       (take 3 [Accept 2 0 0 0, SetLimit 1, Accept 1 100 100 100, Accept 1 1000 1000 1000])
   \<and> window_total
       (take 3 [Accept 2 0 0 0, SetLimit 1, Accept 1 100 100 100, Accept 1 1000 1000 1000])
       (fresh_limiter, []) 0 = 2
   \<and> tokensThisInterval (fst (run
       (take 3 [Accept 2 0 0 0, SetLimit 1, Accept 1 100 100 100, Accept 1 1000 1000 1000])
       (fresh_limiter, []))) = 2
   \<and> tokensPerInterval (tokenBucket (fst (run
       (take 3 [Accept 2 0 0 0, SetLimit 1, Accept 1 100 100 100, Accept 1 1000 1000 1000])
       (fresh_limiter, [])))) = 1
   \<and> lowered
       (take 3 [Accept 2 0 0 0, SetLimit 1, Accept 1 100 100 100, Accept 1 1000 1000 1000])
       (fresh_limiter, []) False
   \<and> fst (accept 1 1000 1000 1000 (run
       (take 3 [Accept 2 0 0 0, SetLimit 1, Accept 1 100 100 100, Accept 1 1000 1000 1000])
       (fresh_limiter, [])))
   \<and> tokensThisInterval (fst (snd (accept 1 1000 1000 1000 (run
       (take 3 [Accept 2 0 0 0, SetLimit 1, Accept 1 100 100 100, Accept 1 1000 1000 1000])
       (fresh_limiter, []))))) = 1
   \<and> starts_window (Accept 1 1000 1000 1000) (fst (run
       (take 3 [Accept 2 0 0 0, SetLimit 1, Accept 1 100 100 100, Accept 1 1000 1000 1000])
       (fresh_limiter, [])))
   \<and> list_all limit_nonneg
       (take 4 [Accept 2 0 0 0, SetLimit 1, Accept 1 100 100 100, Accept 1 1000 1000 1000])
   \<and> tokensThisInterval (fst (run
       (take 4 [Accept 2 0 0 0, SetLimit 1, Accept 1 100 100 100, Accept 1 1000 1000 1000])
       (fresh_limiter, []))) = 1
   \<and> \<not> lowered
       (take 4 [Accept 2 0 0 0, SetLimit 1, Accept 1 100 100 100, Accept 1 1000 1000 1000])
       (fresh_limiter, []) False"
  using
    window_cap_invariant [of 2 "Millis 1000" logger 0 0 fresh_limiter 3
      "[Accept 2 0 0 0, SetLimit 1, Accept 1 100 100 100, Accept 1 1000 1000 1000]" "[]"
      1 1000 1000 1000]
    window_cap_invariant [of 2 "Millis 1000" logger 0 0 fresh_limiter 4
      "[Accept 2 0 0 0, SetLimit 1, Accept 1 100 100 100, Accept 1 1000 1000 1000]" "[]"
      1 1000 1000 1000]
  by (simp add: RateLimiter_constructor_def TokenBucket_constructor_def fresh_limiter_def
      logger_def accept_def rollover_def getStat_def TokenBucket_accept_def drip_def
      setLimit_def Let_def)

subsection \<open>C3: scenario B\<close>

text \<open>
  C3: a limiter is constructed with \<open>tokensPerInterval = 2\<close> and \<open>interval = 1000\<close>;
  three calls \<open>accept(1)\<close> whose clock readings follow the construction in order, all
  within 100 ms of it, return true, true, false. \<open>nowBucket\<close> and \<open>t0\<close> are the
  readings of the two constructors, \<open>n1 n2 n3\<close> those of the three calls, \<open>d1 d2\<close> those
  of the bucket in the first two calls.
\<close>

theorem scenario_B_results:
  assumes "nowBucket \<le> t0" "t0 \<le> n1" "n1 \<le> d1" "d1 \<le> n2" "n2 \<le> d2" "d2 \<le> n3"
    and "n3 \<le> t0 + 100"
  shows "session_results 2 (Millis 1000) cb nowBucket t0 w
           [Accept 1 n1 p1 d1, Accept 1 n2 p2 d2, Accept 1 n3 p3 d3]
         = Inr [True, True, False]"
proof -
  let ?b0 = "\<lparr>bucketSize = 2, tokensPerInterval = 2, interval = 1000,
              content = 2, lastDrip = nowBucket\<rparr>"
  let ?s0 = "\<lparr>tokenBucket = ?b0,
          curIntervalStart = t0, tokensThisInterval = 0, incomingThisInterval = 0,
          incoming = 0, accepted = 0, averageTime = 0, statCallback = cb, timeSum = 0\<rparr>"
  have c: "RateLimiter_constructor 2 (Millis 1000) cb nowBucket t0 = Inr ?s0"
    using constructor_ok[of "Millis 1000" 1000 2 cb nowBucket t0] by simp
  have full: "content (drip d1 ?b0) = 2"
    using drip_full[of ?b0 d1] assms by simp
  let ?b1 = "(drip d1 ?b0)\<lparr>content := 1\<rparr>"
  let ?s1 = "?s0\<lparr>incomingThisInterval := 1, tokenBucket := ?b1, tokensThisInterval := 1\<rparr>"
  have a1: "accept 1 n1 p1 d1 (?s0, w) = (True, ?s1, w)"
    using accept_granted[of 1 ?s0 n1 d1 p1 w] full assms by simp
  have "min (of_int (bucketSize ?b1)) (content ?b1) \<le> content (drip d2 ?b1)"
    by (rule drip_lower) (use assms in \<open>simp_all add: drip_frame\<close>)
  then have low: "1 \<le> content (drip d2 ?b1)"
    by (simp add: drip_frame)
  let ?b2 = "(drip d2 ?b1)\<lparr>content := content (drip d2 ?b1) - 1\<rparr>"
  let ?s2 = "?s1\<lparr>incomingThisInterval := 2, tokenBucket := ?b2, tokensThisInterval := 2\<rparr>"
  have a2: "accept 1 n2 p2 d2 (?s1, w) = (True, ?s2, w)"
    using accept_granted[of 1 ?s1 n2 d2 p2 w] low assms by (simp add: drip_frame)
  have a3: "fst (accept 1 n3 p3 d3 (?s2, w)) = False"
    using accept_over_cap[of 1 ?s2 n3 p3 d3 w] assms by (simp add: drip_frame)
  show ?thesis
    unfolding session_results_def c using a1 a2 a3 by simp
qed

theorem scenario_B_results_witness:
  "(0::int) \<le> 0 \<and> (0::int) \<le> 10 \<and> (10::int) \<le> 10 \<and> (10::int) \<le> 50
   \<and> (50::int) \<le> 50 \<and> (50::int) \<le> 90 \<and> (90::int) \<le> 0 + 100
   \<and> session_results 2 (Millis 1000) logger 0 0 []
        [Accept 1 10 10 10, Accept 1 50 50 50, Accept 1 90 90 90]
      = Inr [True, True, False]"
  using scenario_B_results [of 0 0 10 10 50 50 90 logger "[]" 10 50 90 90] by simp

subsection \<open>C4: what a rollover stores and reports\<close>

text \<open>
  C4 says that every \<open>accept\<close> call that rolls the window over copies
  \<open>tokensThisInterval\<close>, \<open>incomingThisInterval\<close> and the rounded quotient
  \<open>timeSum / tokensThisInterval\<close> into the stat fields and calls the callback with
  \<open>{accepted, incoming, averageTime, limit}\<close>. Two inputs where it does not. On
  \<open>busy_limiter\<close> (interval 1000) the \<open>accept(1)\<close> that reads the clock at 1500 stores
  1, 2 and 30, but when \<open>getStat()\<close> reads the clock at 2500, one interval later, the
  callback receives zeros. On \<open>zero_interval_limiter\<close> (interval 0, one token granted,
  \<open>timeSum = 30\<close>) the \<open>accept(1)\<close> at time 7 rolls over and stores 0, 0 and 0.
\<close>

theorem rollover_reports_zeros:
  "accepted (fst (snd (accept 1 1500 2500 1500 (busy_limiter, [])))) = 1
   \<and> incoming (fst (snd (accept 1 1500 2500 1500 (busy_limiter, [])))) = 2
   \<and> averageTime (fst (snd (accept 1 1500 2500 1500 (busy_limiter, [])))) = 30
   \<and> snd (snd (accept 1 1500 2500 1500 (busy_limiter, []))) =
       [\<lparr>stat_accepted = 0, stat_incoming = 0, stat_averageTime = 0, stat_limit = 2\<rparr>]
   \<and> tokensThisInterval zero_interval_limiter = 1
   \<and> incomingThisInterval zero_interval_limiter + 1 = 1
   \<and> \<lfloor>timeSum zero_interval_limiter
        / of_int (tokensThisInterval zero_interval_limiter)\<rfloor> = 30
   \<and> accepted (fst (snd (accept 1 7 7 7 (zero_interval_limiter, [])))) = 0
   \<and> incoming (fst (snd (accept 1 7 7 7 (zero_interval_limiter, [])))) = 0
   \<and> averageTime (fst (snd (accept 1 7 7 7 (zero_interval_limiter, [])))) = 0"
  by (simp add: busy_limiter_def zero_interval_limiter_def logger_def accept_def
      rollover_def getStat_def TokenBucket_accept_def drip_def Let_def)

text \<open>
  C4, amended: an \<open>accept\<close> call whose count passes the bucket-size check and that
  finds the interval elapsed does the following, \<open>s\<close> being the limiter before the
  call. With a positive interval it sets \<open>accepted\<close> to \<open>tokensThisInterval\<close>,
  \<open>incoming\<close> to \<open>incomingThisInterval\<close> (which has just counted the call itself, so
  it is the value of \<open>s\<close> plus one) and \<open>averageTime\<close> to
  \<open>timeSum / tokensThisInterval\<close> rounded down, or 0 when no token was granted; with an
  interval that is not positive it sets the three to 0. It resets the three window
  counters (the same call then adds its count to \<open>tokensThisInterval\<close> when it is
  accepted) and sets \<open>curIntervalStart\<close> to its clock reading. Without a callback the
  rest of the program is untouched; a registered callback is applied exactly once, to
  the object that \<open>getStat()\<close> returns at its own clock reading \<open>nowStat\<close>: the three
  fields just stored when that reading is less than one interval after \<open>now\<close>, zeros
  otherwise, and in both cases \<open>limit: tokensPerInterval\<close>.
\<close>

theorem rollover_snapshot:
  assumes "count \<le> bucketSize (tokenBucket s)"
    and "interval (tokenBucket s) \<le> now - curIntervalStart s"
    and "accept count now nowStat nowDrip (s, w) = (r, s', w')"
  shows "accepted s' = (if 0 < interval (tokenBucket s) then tokensThisInterval s else 0)
    \<and> incoming s' =
        (if 0 < interval (tokenBucket s) then incomingThisInterval s + 1 else 0)
    \<and> averageTime s' =
        (if 0 < interval (tokenBucket s) \<and> tokensThisInterval s \<noteq> 0
         then \<lfloor>timeSum s / of_int (tokensThisInterval s)\<rfloor>
         else 0)
    \<and> tokensThisInterval s' = (if r then count else 0)
    \<and> incomingThisInterval s' = 0
    \<and> timeSum s' = 0
    \<and> curIntervalStart s' = now
    \<and> (case statCallback s of
         None \<Rightarrow> w' = w
       | Some fn \<Rightarrow>
           w' = fn \<lparr>stat_accepted =
                      (if nowStat - now < interval (tokenBucket s) then accepted s' else 0),
                    stat_incoming =
                      (if nowStat - now < interval (tokenBucket s) then incoming s' else 0),
                    stat_averageTime =
                      (if nowStat - now < interval (tokenBucket s) then averageTime s'
                       else 0),
                    stat_limit = tokensPerInterval (tokenBucket s)\<rparr> w)"
  using assms
  by (auto simp: accept_def rollover_def getStat_def TokenBucket_accept_def drip_def Let_def
      split: if_splits prod.splits option.splits)

theorem rollover_snapshot_witness:
  "(1::int) \<le> bucketSize (tokenBucket busy_limiter)
   \<and> interval (tokenBucket busy_limiter) \<le> 1500 - curIntervalStart busy_limiter
   \<and> 0 < interval (tokenBucket busy_limiter)
   \<and> statCallback busy_limiter = logger
   \<and> (1500::int) - 1500 < interval (tokenBucket busy_limiter)
   \<and> fst (accept 1 1500 1500 1500 (busy_limiter, [])) = True
   \<and> accepted (fst (snd (accept 1 1500 1500 1500 (busy_limiter, [])))) = 1
   \<and> incoming (fst (snd (accept 1 1500 1500 1500 (busy_limiter, [])))) = 2
   \<and> averageTime (fst (snd (accept 1 1500 1500 1500 (busy_limiter, [])))) = 30
   \<and> tokensThisInterval (fst (snd (accept 1 1500 1500 1500 (busy_limiter, [])))) = 1
   \<and> incomingThisInterval (fst (snd (accept 1 1500 1500 1500 (busy_limiter, [])))) = 0
   \<and> timeSum (fst (snd (accept 1 1500 1500 1500 (busy_limiter, [])))) = 0
   \<and> curIntervalStart (fst (snd (accept 1 1500 1500 1500 (busy_limiter, [])))) = 1500
   \<and> snd (snd (accept 1 1500 1500 1500 (busy_limiter, []))) =
       [\<lparr>stat_accepted = 1, stat_incoming = 2, stat_averageTime = 30, stat_limit = 2\<rparr>]"
  using rollover_snapshot [of 1 busy_limiter 1500 1500 1500 "[]"
      "fst (accept 1 1500 1500 1500 (busy_limiter, []))"
      "fst (snd (accept 1 1500 1500 1500 (busy_limiter, [])))"
      "snd (snd (accept 1 1500 1500 1500 (busy_limiter, [])))"]
  by (simp add: busy_limiter_def logger_def accept_def rollover_def getStat_def
      TokenBucket_accept_def drip_def Let_def)

subsection \<open>C5: a count above the bucket size\<close>

text \<open>
  C5: for every limiter state and every count above the bucket's \<open>bucketSize\<close>,
  \<open>accept\<close> returns false; the bucket (its content and its drip bookkeeping), the
  tokens granted in the window and the three public stat fields are as before, and the
  incoming-request counter is one higher.
\<close>

theorem oversize_count_rejected:
  assumes "bucketSize (tokenBucket s) < count"
    and "accept count now nowStat nowDrip (s, w) = (r, s', w')"
  shows "r = False
    \<and> tokenBucket s' = tokenBucket s
    \<and> tokensThisInterval s' = tokensThisInterval s
    \<and> accepted s' = accepted s
    \<and> incoming s' = incoming s
    \<and> averageTime s' = averageTime s
    \<and> incomingThisInterval s' = incomingThisInterval s + 1"
  using assms by (auto simp: accept_oversize)

theorem oversize_count_rejected_witness:
  "bucketSize (tokenBucket busy_limiter) < 3
   \<and> fst (accept 3 400 400 400 (busy_limiter, [])) = False
   \<and> tokenBucket (fst (snd (accept 3 400 400 400 (busy_limiter, []))))
       = \<lparr>bucketSize = 2, tokensPerInterval = 2, interval = 1000, content = 1, lastDrip = 0\<rparr>
   \<and> tokensThisInterval (fst (snd (accept 3 400 400 400 (busy_limiter, [])))) = 1
   \<and> accepted (fst (snd (accept 3 400 400 400 (busy_limiter, [])))) = 0
   \<and> incoming (fst (snd (accept 3 400 400 400 (busy_limiter, [])))) = 0
   \<and> averageTime (fst (snd (accept 3 400 400 400 (busy_limiter, [])))) = 0
   \<and> incomingThisInterval (fst (snd (accept 3 400 400 400 (busy_limiter, [])))) = 2"
  using oversize_count_rejected [of busy_limiter 3 400 400 400 "[]"
      "fst (accept 3 400 400 400 (busy_limiter, []))"
      "fst (snd (accept 3 400 400 400 (busy_limiter, [])))"
      "snd (snd (accept 3 400 400 400 (busy_limiter, [])))"]
  by (simp add: busy_limiter_def)

subsection \<open>C6: getStat\<close>

text \<open>
  C6: \<open>getStat\<close> leaves the limiter as it is. When the interval has elapsed since
  \<open>curIntervalStart\<close> (no \<open>accept\<close> has rolled the window over yet) it returns
  \<open>{accepted: 0, incoming: 0, averageTime: 0, limit: tokensPerInterval}\<close>; otherwise it
  returns the stored \<open>accepted\<close>, \<open>incoming\<close> and \<open>averageTime\<close> with the same limit.
\<close>

theorem getStat_snapshot:
  "snd (getStat now s) = s
   \<and> (interval (tokenBucket s) \<le> now - curIntervalStart s \<longrightarrow>
        fst (getStat now s) =
          \<lparr>stat_accepted = 0, stat_incoming = 0, stat_averageTime = 0,
           stat_limit = tokensPerInterval (tokenBucket s)\<rparr>)
   \<and> (now - curIntervalStart s < interval (tokenBucket s) \<longrightarrow>
        fst (getStat now s) =
          \<lparr>stat_accepted = accepted s, stat_incoming = incoming s,
           stat_averageTime = averageTime s,
           stat_limit = tokensPerInterval (tokenBucket s)\<rparr>)"
  by (simp add: getStat_def)

theorem getStat_snapshot_witness:
  "interval (tokenBucket (fst (snd (accept 1 1500 1500 1500 (busy_limiter, [])))))
     \<le> 2500 - curIntervalStart (fst (snd (accept 1 1500 1500 1500 (busy_limiter, []))))
   \<and> fst (getStat 2500 (fst (snd (accept 1 1500 1500 1500 (busy_limiter, []))))) =
       \<lparr>stat_accepted = 0, stat_incoming = 0, stat_averageTime = 0, stat_limit = 2\<rparr>
   \<and> 2000 - curIntervalStart (fst (snd (accept 1 1500 1500 1500 (busy_limiter, []))))
       < interval (tokenBucket (fst (snd (accept 1 1500 1500 1500 (busy_limiter, [])))))
   \<and> fst (getStat 2000 (fst (snd (accept 1 1500 1500 1500 (busy_limiter, []))))) =
       \<lparr>stat_accepted = 1, stat_incoming = 2, stat_averageTime = 30, stat_limit = 2\<rparr>
   \<and> snd (getStat 2000 (fst (snd (accept 1 1500 1500 1500 (busy_limiter, [])))))
       = fst (snd (accept 1 1500 1500 1500 (busy_limiter, [])))"
  using getStat_snapshot [of 2500 "fst (snd (accept 1 1500 1500 1500 (busy_limiter, [])))"]
    getStat_snapshot [of 2000 "fst (snd (accept 1 1500 1500 1500 (busy_limiter, [])))"]
  by (simp add: busy_limiter_def logger_def accept_def rollover_def getStat_def
      TokenBucket_accept_def drip_def Let_def)

subsection \<open>C7: construction\<close>

text \<open>
  C7: for every \<open>tokensPerInterval\<close> and every interval argument that resolves to a
  number of milliseconds, the constructor returns a limiter whose bucket has
  \<open>bucketSize = tokensPerInterval\<close> and \<open>content = tokensPerInterval\<close>, whose window
  counters and stat fields are zero and whose \<open>curIntervalStart\<close> is the construction
  time. For a limit that is not negative and a positive interval, a first
  \<open>accept(tokensPerInterval)\<close> whose bucket reads the clock no earlier than the
  construction succeeds.
\<close>

theorem constructor_starts_full:
  assumes "resolve_interval iv = Inr ms"
  shows "\<exists>s. RateLimiter_constructor tpi iv cb nowBucket now0 = Inr s
    \<and> bucketSize (tokenBucket s) = tpi
    \<and> tokensPerInterval (tokenBucket s) = tpi
    \<and> interval (tokenBucket s) = ms
    \<and> content (tokenBucket s) = of_int tpi
    \<and> tokensThisInterval s = 0 \<and> incomingThisInterval s = 0 \<and> timeSum s = 0
    \<and> accepted s = 0 \<and> incoming s = 0 \<and> averageTime s = 0
    \<and> curIntervalStart s = now0
    \<and> (0 \<le> tpi \<and> 0 < ms \<and> nowBucket \<le> nowDrip \<longrightarrow>
         fst (accept tpi now nowStat nowDrip (s, w)) = True)"
proof -
  let ?b = "\<lparr>bucketSize = tpi, tokensPerInterval = tpi, interval = ms,
             content = of_int tpi, lastDrip = nowBucket\<rparr>"
  have d: "0 \<le> tpi \<Longrightarrow> 0 < ms \<Longrightarrow> nowBucket \<le> nowDrip \<Longrightarrow>
      content (drip nowDrip ?b) = of_int tpi"
    using drip_full[of ?b nowDrip] by simp
  show ?thesis
    unfolding constructor_ok[OF assms]
    using d
    by (auto simp: accept_def rollover_def getStat_def TokenBucket_accept_def Let_def
        split: option.splits)
qed

theorem constructor_starts_full_witness:
  "resolve_interval (Unit ''second'') = Inr 1000
   \<and> (0::int) \<le> 2 \<and> (0::int) < 1000 \<and> (0::int) \<le> 5
   \<and> (\<exists>s. RateLimiter_constructor 2 (Unit ''second'') logger 0 0 = Inr s
        \<and> bucketSize (tokenBucket s) = 2
        \<and> content (tokenBucket s) = 2
        \<and> tokensThisInterval s = 0 \<and> incomingThisInterval s = 0
        \<and> curIntervalStart s = 0
        \<and> fst (accept 2 5 5 5 (s, [])) = True)"
  using constructor_starts_full [of "Unit ''second''" 1000 2 logger 0 0 5 5 5 "[]"]
  by auto

subsection \<open>C8: setLimit\<close>

text \<open>
  C8: \<open>setLimit v\<close> sets the bucket's \<open>tokensPerInterval\<close> and \<open>bucketSize\<close> to \<open>v\<close> and
  leaves the bucket's content, interval and last drip, the window counters,
  \<open>curIntervalStart\<close>, the stored stat fields and the callback as they were. After it,
  and after any further calls other than \<open>setLimit\<close>, an \<open>accept\<close> that returns true
  leaves at most \<open>v\<close> tokens granted in its window. Scenario C: on a limiter constructed
  with 2 tokens per 1000 ms, after \<open>setLimit(5)\<close> five calls \<open>accept(1)\<close> succeed and
  the sixth fails, both later in the current window (time 600) and in the next one
  (time 1000).
\<close>

theorem setLimit_frame:
  "tokensPerInterval (tokenBucket (setLimit v s)) = v
   \<and> bucketSize (tokenBucket (setLimit v s)) = v
   \<and> content (tokenBucket (setLimit v s)) = content (tokenBucket s)
   \<and> interval (tokenBucket (setLimit v s)) = interval (tokenBucket s)
   \<and> lastDrip (tokenBucket (setLimit v s)) = lastDrip (tokenBucket s)
   \<and> tokensThisInterval (setLimit v s) = tokensThisInterval s
   \<and> incomingThisInterval (setLimit v s) = incomingThisInterval s
   \<and> timeSum (setLimit v s) = timeSum s
   \<and> curIntervalStart (setLimit v s) = curIntervalStart s
   \<and> accepted (setLimit v s) = accepted s
   \<and> incoming (setLimit v s) = incoming s
   \<and> averageTime (setLimit v s) = averageTime s
   \<and> statCallback (setLimit v s) = statCallback s
   \<and> (list_all (\<lambda>c. \<not> is_setLimit c) cs
        \<and> fst (accept count now nowStat nowDrip (run cs (setLimit v s, w)))
      \<longrightarrow> tokensThisInterval
            (fst (snd (accept count now nowStat nowDrip (run cs (setLimit v s, w))))) \<le> v)
   \<and> session_results 2 (Millis 1000) None 0 0 ()
        [SetLimit 5, Accept 1 600 600 600, Accept 1 600 600 600, Accept 1 600 600 600,
         Accept 1 600 600 600, Accept 1 600 600 600, Accept 1 600 600 600]
      = Inr [True, True, True, True, True, False]
   \<and> session_results 2 (Millis 1000) None 0 0 ()
        [SetLimit 5, Accept 1 1000 1000 1000, Accept 1 1000 1000 1000,
         Accept 1 1000 1000 1000, Accept 1 1000 1000 1000, Accept 1 1000 1000 1000,
         Accept 1 1000 1000 1000]
      = Inr [True, True, True, True, True, False]"
proof -
  have frame: "tokensPerInterval (tokenBucket (setLimit v s)) = v
   \<and> bucketSize (tokenBucket (setLimit v s)) = v
   \<and> content (tokenBucket (setLimit v s)) = content (tokenBucket s)
   \<and> interval (tokenBucket (setLimit v s)) = interval (tokenBucket s)
   \<and> lastDrip (tokenBucket (setLimit v s)) = lastDrip (tokenBucket s)
   \<and> tokensThisInterval (setLimit v s) = tokensThisInterval s
   \<and> incomingThisInterval (setLimit v s) = incomingThisInterval s
   \<and> timeSum (setLimit v s) = timeSum s
   \<and> curIntervalStart (setLimit v s) = curIntervalStart s
   \<and> accepted (setLimit v s) = accepted s
   \<and> incoming (setLimit v s) = incoming s
   \<and> averageTime (setLimit v s) = averageTime s
   \<and> statCallback (setLimit v s) = statCallback s"
    by (simp add: setLimit_def Let_def)
  have later: "tokensThisInterval
      (fst (snd (accept count now nowStat nowDrip (run cs (setLimit v s, w))))) \<le> v"
    if no: "list_all (\<lambda>c. \<not> is_setLimit c) cs"
      and r: "fst (accept count now nowStat nowDrip (run cs (setLimit v s, w)))"
  proof -
    obtain s1 w1 where sw: "run cs (setLimit v s, w) = (s1, w1)"
      by (cases "run cs (setLimit v s, w)")
    obtain r' s' w' where a: "accept count now nowStat nowDrip (s1, w1) = (r', s', w')"
      using prod_cases3 by blast
    have "tokensPerInterval (tokenBucket s1) = v"
      using run_limit[OF no, of "(setLimit v s, w)"] sw frame by simp
    moreover have "r'" using r sw a by simp
    ultimately show ?thesis using accept_cap(4)[OF a] sw a by simp
  qed
  have now_window: "session_results 2 (Millis 1000) None 0 0 ()
        [SetLimit 5, Accept 1 600 600 600, Accept 1 600 600 600, Accept 1 600 600 600,
         Accept 1 600 600 600, Accept 1 600 600 600, Accept 1 600 600 600]
      = Inr [True, True, True, True, True, False]"
    by (simp add: session_results_def RateLimiter_constructor_def
        TokenBucket_constructor_def accept_def TokenBucket_accept_def drip_def
        setLimit_def Let_def)
  have next_window: "session_results 2 (Millis 1000) None 0 0 ()
        [SetLimit 5, Accept 1 1000 1000 1000, Accept 1 1000 1000 1000,
         Accept 1 1000 1000 1000, Accept 1 1000 1000 1000, Accept 1 1000 1000 1000,
         Accept 1 1000 1000 1000]
      = Inr [True, True, True, True, True, False]"
    by (simp add: session_results_def RateLimiter_constructor_def
        TokenBucket_constructor_def accept_def rollover_def TokenBucket_accept_def drip_def
        setLimit_def Let_def)
  show ?thesis using frame later now_window next_window by blast
qed

theorem setLimit_frame_witness:
  "tokensPerInterval (tokenBucket (setLimit 5 busy_limiter)) = 5
   \<and> bucketSize (tokenBucket (setLimit 5 busy_limiter)) = 5
   \<and> content (tokenBucket (setLimit 5 busy_limiter)) = 1
   \<and> tokensThisInterval (setLimit 5 busy_limiter) = 1
   \<and> list_all (\<lambda>c. \<not> is_setLimit c) [Accept 1 10 10 10, AddTime 7]
   \<and> fst (accept 3 600 600 600
        (run [Accept 1 10 10 10, AddTime 7] (setLimit 5 busy_limiter, [])))
   \<and> tokensThisInterval (fst (snd (accept 3 600 600 600
        (run [Accept 1 10 10 10, AddTime 7] (setLimit 5 busy_limiter, []))))) = 5"
  using setLimit_frame [of 5 busy_limiter "[Accept 1 10 10 10, AddTime 7]" 3 600 600 600 "[]"]
  by (simp add: busy_limiter_def setLimit_def accept_def TokenBucket_accept_def drip_def
      addTime_def Let_def)

subsection \<open>C9: curIntervalStart\<close>

text \<open>
  C9: an \<open>accept\<close> call changes \<open>curIntervalStart\<close> only when the interval has
  elapsed since its previous value (and the count passes the bucket-size check), and
  then sets it to the call's own clock reading; with a clock that has not gone back
  (\<open>curIntervalStart \<le> now\<close>) it never decreases. \<open>getStat\<close>, \<open>addTime\<close> and
  \<open>setLimit\<close> leave it as it is.
\<close>

theorem curIntervalStart_advance:
  assumes "accept count now nowStat nowDrip (s, w) = (r, s', w')"
  shows "curIntervalStart s' =
           (if count \<le> bucketSize (tokenBucket s)
               \<and> interval (tokenBucket s) \<le> now - curIntervalStart s
            then now else curIntervalStart s)
    \<and> (curIntervalStart s' \<noteq> curIntervalStart s \<longrightarrow>
         interval (tokenBucket s) \<le> now - curIntervalStart s \<and> curIntervalStart s' = now)
    \<and> (curIntervalStart s \<le> now \<longrightarrow> curIntervalStart s \<le> curIntervalStart s')
    \<and> curIntervalStart (snd (getStat t s)) = curIntervalStart s
    \<and> curIntervalStart (addTime time s) = curIntervalStart s
    \<and> curIntervalStart (setLimit v s) = curIntervalStart s"
  using assms
    rollover_start[of now nowStat "s\<lparr>incomingThisInterval := incomingThisInterval s + 1\<rparr>" w]
  by (auto simp: accept_def getStat_def addTime_def setLimit_def Let_def
      split: if_splits prod.splits)

theorem curIntervalStart_advance_witness:
  "curIntervalStart busy_limiter \<le> 1500
   \<and> curIntervalStart (fst (snd (accept 1 1500 1500 1500 (busy_limiter, []))))
       \<noteq> curIntervalStart busy_limiter
   \<and> interval (tokenBucket busy_limiter) \<le> 1500 - curIntervalStart busy_limiter
   \<and> curIntervalStart (fst (snd (accept 1 1500 1500 1500 (busy_limiter, [])))) = 1500
   \<and> curIntervalStart busy_limiter
       \<le> curIntervalStart (fst (snd (accept 1 1500 1500 1500 (busy_limiter, []))))
   \<and> curIntervalStart (snd (getStat 1500 busy_limiter)) = 0
   \<and> curIntervalStart (addTime 7 busy_limiter) = 0
   \<and> curIntervalStart (setLimit 5 busy_limiter) = 0"
  using curIntervalStart_advance [of 1 1500 1500 1500 busy_limiter "[]"
      "fst (accept 1 1500 1500 1500 (busy_limiter, []))"
      "fst (snd (accept 1 1500 1500 1500 (busy_limiter, [])))"
      "snd (snd (accept 1 1500 1500 1500 (busy_limiter, [])))" 1500 7 5]
  by (simp add: busy_limiter_def)

subsection \<open>C10: a count above the bucket size on an expired window\<close>

text \<open>
  C10: when the window has expired and the count is above the bucket's \<open>bucketSize\<close>,
  \<open>accept\<close> returns false before the rollover check. The limiter after the call is the
  limiter before it with \<open>incomingThisInterval\<close> one higher: \<open>curIntervalStart\<close> has not
  advanced, the window counters are not reset, the stat fields are not updated; and
  what the callback acts on is untouched, so the callback has not run.
\<close>

theorem oversize_skips_rollover:
  assumes "interval (tokenBucket s) \<le> now - curIntervalStart s"
    and "bucketSize (tokenBucket s) < count"
  shows "accept count now nowStat nowDrip (s, w) =
           (False, s\<lparr>incomingThisInterval := incomingThisInterval s + 1\<rparr>, w)"
  using assms by (simp add: accept_oversize)

theorem oversize_skips_rollover_witness:
  "interval (tokenBucket busy_limiter) \<le> 5000 - curIntervalStart busy_limiter
   \<and> bucketSize (tokenBucket busy_limiter) < 3
   \<and> accept 3 5000 5000 5000 (busy_limiter, []) =
       (False,
        \<lparr>tokenBucket = \<lparr>bucketSize = 2, tokensPerInterval = 2, interval = 1000,
                         content = 1, lastDrip = 0\<rparr>,
         curIntervalStart = 0, tokensThisInterval = 1, incomingThisInterval = 2,
         incoming = 0, accepted = 0, averageTime = 0, statCallback = logger,
         timeSum = 30\<rparr>,
        [])"
  using oversize_skips_rollover [of busy_limiter 5000 3 5000 5000 "[]"]
  by (simp add: busy_limiter_def)

end
